theory Spec2Isabelle
  imports Main "HOL-Library.AList"
begin

section \<open>JavaScript values and errors\<close>

text \<open>
  A value produced by \<^verbatim>\<open>JSON.parse\<close>. An object is the list of its own properties
  (keys are unique in a parsed object). The JavaScript value \<^verbatim>\<open>undefined\<close> is not a
  JSON value: a value that may be undefined is a \<open>json option\<close>, \<open>None\<close> being undefined.
  Numbers matter here only through their truthiness (zero is falsy), so they are integers.
\<close>

datatype json =
    JNull
  | JBool bool
  | JNum int
  | JStr string
  | JArr "json list"
  | JObj "(string \<times> json) list"

text \<open>A thrown \<^verbatim>\<open>Error\<close>, identified by its message.\<close>

datatype error = Error string

fun message :: "error \<Rightarrow> string" where
  "message (Error m) = m"

text \<open>JavaScript truthiness, as the tests \<^verbatim>\<open>!issue\<close> and \<^verbatim>\<open>!issue.id\<close> read it.\<close>

fun truthy :: "json \<Rightarrow> bool" where
  "truthy JNull = False"
| "truthy (JBool b) = b"
| "truthy (JNum n) = (n \<noteq> 0)"
| "truthy (JStr s) = (s \<noteq> [])"
| "truthy (JArr xs) = True"
| "truthy (JObj kvs) = True"

fun truthy_js :: "json option \<Rightarrow> bool" where
  "truthy_js None = False"
| "truthy_js (Some v) = truthy v"

text \<open>
  Reading the property \<^verbatim>\<open>id\<close> of a value that is neither null nor undefined: only an
  object can have it; numbers, strings, booleans and arrays give undefined.
\<close>

fun read_id :: "json \<Rightarrow> json option" where
  "read_id (JObj kvs) = map_of kvs ''id''"
| "read_id v = None"

text \<open>\<^verbatim>\<open>Array.isArray(parsed) ? parsed[0] : parsed\<close>; an empty array has no element 0.\<close>

fun first_or_self :: "json \<Rightarrow> json option" where
  "first_or_self (JArr []) = None"
| "first_or_self (JArr (x # xs)) = Some x"
| "first_or_self v = Some v"

text \<open>\<^verbatim>\<open>String.prototype.includes\<close>, which \<^verbatim>\<open>toThrow(text)\<close> applies to a message.\<close>

fun starts_with :: "string \<Rightarrow> string \<Rightarrow> bool" where
  "starts_with hay [] = True"
| "starts_with [] (c # cs) = False"
| "starts_with (h # hs) (c # cs) = (h = c \<and> starts_with hs cs)"

fun includes_str :: "string \<Rightarrow> string \<Rightarrow> bool" where
  "includes_str [] needle = (needle = [])"
| "includes_str (h # hs) needle = (starts_with (h # hs) needle \<or> includes_str hs needle)"

section \<open>The subprocess client: create\<close>

text \<open>
  \<^verbatim>\<open>BeadsClient.create\<close> of \<^verbatim>\<open>src/BeadsClient.ts\<close>. The subprocess and
  \<^verbatim>\<open>JSON.parse\<close> are outside the repository: \<open>settled\<close> is what \<^verbatim>\<open>exec\<close> settled with
  (a rejection or the standard output) and \<open>JSON_parse\<close> is the parser (a syntax error or
  the parsed value). The argument list only feeds \<^verbatim>\<open>exec\<close> and is left out.
\<close>

definition no_issue_error :: error where
  "no_issue_error = Error ''bd create did not return an issue''"

definition create :: "(string \<Rightarrow> error + json) \<Rightarrow> error + string \<Rightarrow> error + json" where
  "create JSON_parse settled =
     (case settled of
        Inl e \<Rightarrow> Inl e
      | Inr result \<Rightarrow>
          (case JSON_parse result of
             Inl e \<Rightarrow> Inl e
           | Inr parsed \<Rightarrow>
               (case first_or_self parsed of
                  None \<Rightarrow> Inl no_issue_error
                | Some issue \<Rightarrow>
                    if \<not> truthy issue \<or> \<not> truthy_js (read_id issue)
                    then Inl no_issue_error
                    else Inr issue)))"

section \<open>The subprocess client: listWithParents\<close>

text \<open>
  \<^verbatim>\<open>BdIssue\<close> and \<^verbatim>\<open>BdDependency\<close> of the subprocess client's types. A dependency is an
  issue with a \<^verbatim>\<open>dependency_type\<close>, so one datatype serves both, the type being absent
  (\<open>None\<close>) on a plain issue. Optional fields are options; a status is the text \<^verbatim>\<open>bd\<close>
  printed. The field \<^verbatim>\<open>id\<close> is \<open>issue_id\<close> here.
\<close>

datatype BdIssue = BdIssue
  (issue_id: string)
  (title: string)
  (status: string)
  (priority: int)
  (issue_type: string)
  (parent: "string option")
  (dependencies: "BdIssue list option")
  (blocked_by: "string list option")
  (blocked_by_count: "nat option")
  (dependency_type: "string option")

text \<open>The loop \<^verbatim>\<open>for (const issue of detailedIssues) detailsMap.set(issue.id, issue)\<close>.\<close>

definition detailsMap :: "BdIssue list \<Rightarrow> (string \<rightharpoonup> BdIssue)" where
  "detailsMap detailedIssues =
     foldl (\<lambda>m issue. m(issue_id issue \<mapsto> issue)) Map.empty detailedIssues"

text \<open>
  The body of \<^verbatim>\<open>issues.map(issue => ...)\<close>. The copy \<^verbatim>\<open>{ ...issue }\<close> keeps every field of
  the listed issue; \<^verbatim>\<open>if (details.parent)\<close> holds for a non-empty text, and
  \<^verbatim>\<open>if (details.dependencies)\<close> for every array, the empty one too. The blockers are
  \<^verbatim>\<open>details.dependencies.filter(dep => dep.dependency_type === "blocks" && dep.status !== "closed")\<close>.
\<close>

definition enrich :: "(string \<rightharpoonup> BdIssue) \<Rightarrow> BdIssue \<Rightarrow> BdIssue" where
  "enrich details_of issue =
     (case details_of (issue_id issue) of
        None \<Rightarrow> issue
      | Some details \<Rightarrow>
          (case issue of BdIssue i t s p ty par deps bb bbc dt \<Rightarrow>
             let par' = (case parent details of
                           Some d \<Rightarrow> if d \<noteq> [] then Some d else par
                         | None \<Rightarrow> par)
             in (case dependencies details of
                   None \<Rightarrow> BdIssue i t s p ty par' deps bb bbc dt
                 | Some ds \<Rightarrow>
                     let blockers =
                           filter (\<lambda>dep. dependency_type dep = Some ''blocks''
                                          \<and> status dep \<noteq> ''closed'') ds
                     in if length blockers > 0
                        then BdIssue i t (if s = ''open'' then ''blocked'' else s) p ty par'
                               (Some ds) (Some (map issue_id blockers))
                               (Some (length blockers)) dt
                        else BdIssue i t s p ty par' (Some ds) bb bbc dt)))"

text \<open>
  \<^verbatim>\<open>listWithParents\<close>: \<open>listed\<close> is what \<^verbatim>\<open>this.list(options)\<close> settled with and \<open>bd_show\<close>
  gives what \<^verbatim>\<open>this.show(ids)\<close> settles with for the ids it is asked (both run \<^verbatim>\<open>bd\<close>).
\<close>

definition listWithParents ::
    "error + BdIssue list \<Rightarrow> (string list \<Rightarrow> error + BdIssue list) \<Rightarrow> error + BdIssue list" where
  "listWithParents listed bd_show =
     (case listed of
        Inl e \<Rightarrow> Inl e
      | Inr issues \<Rightarrow>
          if length issues = 0 then Inr issues
          else (case bd_show (map issue_id issues) of
                  Inl e \<Rightarrow> Inl e
                | Inr detailedIssues \<Rightarrow>
                    Inr (map (enrich (detailsMap detailedIssues)) issues)))"

text \<open>The fixtures of the repository's tests of \<^verbatim>\<open>listWithParents\<close>.\<close>

definition sampleIssue :: BdIssue where
  "sampleIssue =
     BdIssue ''beads-001'' ''Test issue'' ''open'' 2 ''task'' None None None None None"

definition sampleBlocker :: "string \<Rightarrow> BdIssue" where
  "sampleBlocker st =
     BdIssue ''beads-010'' ''Test issue'' st 2 ''task'' None None None None (Some ''blocks'')"

definition detailed :: "BdIssue list \<Rightarrow> BdIssue" where
  "detailed deps =
     BdIssue ''beads-001'' ''Test issue'' ''open'' 2 ''task'' None (Some deps) None None None"

section \<open>Subscriber lists\<close>

text \<open>
  A callback is a function object, and the subscriber lists compare callbacks by identity
  (\<^verbatim>\<open>indexOf\<close>), so a callback is a number naming the object. What a callback does when
  it is invoked is up to the user of the library; the behaviours considered here are
  these: the callback calls some of the unsubscribe functions that \<^verbatim>\<open>onChange\<close>
  returned, in a given order, and then returns or throws.
\<close>

type_synonym callback = nat

record behaviour =
  unsubscribes :: "callback list"
  throws :: bool

definition quiet :: behaviour where
  "quiet = \<lparr>unsubscribes = [], throws = False\<rparr>"

text \<open>\<^verbatim>\<open>Array.prototype.indexOf\<close>: the first position holding the element, if any.\<close>

fun indexOf :: "'a list \<Rightarrow> 'a \<Rightarrow> nat option" where
  "indexOf [] x = None"
| "indexOf (y # ys) x = (if y = x then Some 0 else map_option Suc (indexOf ys x))"

text \<open>
  \<^verbatim>\<open>onChange\<close> pushes the callback and returns a function, \<open>unsubscribe\<close> here:
  \<^verbatim>\<open>const idx = callbacks.indexOf(callback); if (idx >= 0) callbacks.splice(idx, 1)\<close>.
\<close>

definition onChange :: "callback \<Rightarrow> callback list \<Rightarrow> callback list" where
  "onChange callback cbs = cbs @ [callback]"

definition unsubscribe :: "callback \<Rightarrow> callback list \<Rightarrow> callback list" where
  "unsubscribe callback cbs =
     (case indexOf cbs callback of
        None \<Rightarrow> cbs
      | Some idx \<Rightarrow> take idx cbs @ drop (Suc idx) cbs)"

text \<open>
  The loop \<^verbatim>\<open>for (const cb of this.callbacks) cb()\<close>, the same in the poller and in the
  client. The array iterator keeps a position into the live array and stops when the
  position reaches the array's current length, so an unsubscription made by a callback
  moves the later entries under the iterator. The result tells whether a callback threw
  (which ends the loop), the list afterwards, and the callbacks invoked, in order.
\<close>

function notify_from ::
    "(callback \<Rightarrow> behaviour) \<Rightarrow> nat \<Rightarrow> callback list \<Rightarrow> callback list
      \<Rightarrow> bool \<times> callback list \<times> callback list" where
  "notify_from beh i cbs invoked =
     (if i < length cbs then
        (let cb = cbs ! i;
             cbs' = fold unsubscribe (unsubscribes (beh cb)) cbs
         in if throws (beh cb) then (True, cbs', invoked @ [cb])
            else notify_from beh (Suc i) cbs' (invoked @ [cb]))
      else (False, cbs, invoked))"
  by pat_completeness auto
termination
proof (relation "measure (\<lambda>(beh, i, cbs, invoked). length cbs - i)")
  show "wf (measure (\<lambda>(beh, i, cbs, invoked). length cbs - i))" by simp
next
  fix beh :: "callback \<Rightarrow> behaviour" and i cbs and invoked :: "callback list" and cb cbs'
  assume i: "i < length cbs" and cbs': "cbs' = fold unsubscribe (unsubscribes (beh cb)) cbs"
  have one: "length (unsubscribe u xs) \<le> length xs" for u xs
    by (cases "indexOf xs u") (auto simp: unsubscribe_def)
  have "length (fold unsubscribe us xs) \<le> length xs" for us xs
  proof (induction us arbitrary: xs)
    case Nil
    show ?case by simp
  next
    case (Cons u us)
    have "length (fold unsubscribe us (unsubscribe u xs)) \<le> length (unsubscribe u xs)"
      by (rule Cons.IH)
    also have "\<dots> \<le> length xs" by (rule one)
    finally show ?case by simp
  qed
  then have "length cbs' \<le> length cbs" using cbs' by simp
  then show "((beh, Suc i, cbs', invoked @ [cb]), (beh, i, cbs, invoked))
      \<in> measure (\<lambda>(beh, i, cbs, invoked). length cbs - i)"
    using i by simp
qed

declare notify_from.simps [simp del]

definition notify ::
    "(callback \<Rightarrow> behaviour) \<Rightarrow> callback list \<Rightarrow> bool \<times> callback list \<times> callback list" where
  "notify beh cbs = notify_from beh 0 cbs []"

section \<open>Transports, timers and effects\<close>

text \<open>
  The transport objects are named by the workspace root they were made for. What an
  operation does to the world outside the object is recorded as a list of effects, in the
  order of the calls: a \<^verbatim>\<open>transport.send(operation, args)\<close>, a \<^verbatim>\<open>setInterval\<close>, a
  \<^verbatim>\<open>clearInterval\<close>, the call of a subscriber's callback, and the calls the client makes on
  the snapshot transport (\<^verbatim>\<open>load\<close>, \<^verbatim>\<open>startWatching\<close>, the unsubscribe function of its
  watcher, \<^verbatim>\<open>close\<close>).
\<close>

datatype transport_ref = DaemonRef string | JsonlRef string

datatype timer = Timeout nat

datatype effect =
    Send transport_ref string "(string \<times> json) list"
  | SetInterval nat
  | ClearInterval timer
  | Invoke callback
  | Load string
  | StartWatching string
  | Unwatch string
  | Close transport_ref

section \<open>The change poller\<close>

text \<open>
  A fingerprint is the result of \<^verbatim>\<open>JSON.stringify(stats)\<close>: a text, or undefined (\<open>None\<close>)
  when the transport resolved with undefined. \<^verbatim>\<open>lastHash\<close> starts as the empty text, and
  the test \<^verbatim>\<open>this.lastHash && ...\<close> reads its truthiness.
\<close>

type_synonym fingerprint = "string option"

fun truthy_hash :: "fingerprint \<Rightarrow> bool" where
  "truthy_hash None = False"
| "truthy_hash (Some s) = (s \<noteq> [])"

record poller =
  poller_transport :: transport_ref
  intervalId :: "timer option"
  callbacks :: "callback list"
  lastHash :: fingerprint

definition ChangePoller :: "transport_ref \<Rightarrow> poller" where
  "ChangePoller t =
     \<lparr>poller_transport = t, intervalId = None, callbacks = [], lastHash = Some []\<rparr>"

text \<open>
  \<^verbatim>\<open>poll\<close> is asynchronous. Up to its \<^verbatim>\<open>await\<close> it only calls
  \<^verbatim>\<open>this.transport.send("stats", {})\<close>: that is \<open>poll_send\<close>. Everything else happens in one
  piece once the call has settled, with an error or with a result whose fingerprint is
  \<open>hash\<close>: that is \<open>poll\<close>. A callback that throws leaves the \<^verbatim>\<open>try\<close> block before
  \<^verbatim>\<open>this.lastHash = hash\<close>.
\<close>

definition poll_send :: "poller \<Rightarrow> effect list" where
  "poll_send p = [Send (poller_transport p) ''stats'' []]"

definition poll ::
    "(callback \<Rightarrow> behaviour) \<Rightarrow> error + fingerprint \<Rightarrow> poller \<Rightarrow> poller \<times> effect list" where
  "poll beh settled p =
     (case settled of
        Inl e \<Rightarrow> (p, [])
      | Inr hash \<Rightarrow>
          if truthy_hash (lastHash p) \<and> hash \<noteq> lastHash p then
            (case notify beh (callbacks p) of
               (thrown, cbs', invoked) \<Rightarrow>
                 if thrown then (p\<lparr>callbacks := cbs'\<rparr>, map Invoke invoked)
                 else (p\<lparr>callbacks := cbs', lastHash := hash\<rparr>, map Invoke invoked))
          else (p\<lparr>lastHash := hash\<rparr>, []))"

text \<open>\<^verbatim>\<open>start(intervalMs = 2000)\<close>; the timer object \<^verbatim>\<open>setInterval\<close> returns is truthy.\<close>

definition start :: "nat option \<Rightarrow> poller \<Rightarrow> poller \<times> effect list" where
  "start intervalMs p =
     (if intervalId p \<noteq> None then (p, [])
      else (let ms = (case intervalMs of None \<Rightarrow> 2000 | Some ms \<Rightarrow> ms)
            in (p\<lparr>intervalId := Some (Timeout ms)\<rparr>, SetInterval ms # poll_send p)))"

definition stop :: "poller \<Rightarrow> poller \<times> effect list" where
  "stop p =
     (case intervalId p of
        None \<Rightarrow> (p, [])
      | Some t \<Rightarrow> (p\<lparr>intervalId := None\<rparr>, [ClearInterval t]))"

text \<open>
  What can happen to a poller: its methods are called, its timer fires (only a timer that
  has not been cleared does), and a \<^verbatim>\<open>send\<close> it made settles.
\<close>

datatype poller_event =
    Start "nat option"
  | Stop
  | Tick
  | Settled "error + fingerprint"
  | Subscribe callback
  | Unsubscribe callback

fun poller_step ::
    "(callback \<Rightarrow> behaviour) \<Rightarrow> poller_event \<Rightarrow> poller \<Rightarrow> poller \<times> effect list" where
  "poller_step beh (Start intervalMs) p = start intervalMs p"
| "poller_step beh Stop p = stop p"
| "poller_step beh Tick p = (p, if intervalId p = None then [] else poll_send p)"
| "poller_step beh (Settled s) p = poll beh s p"
| "poller_step beh (Subscribe cb) p = (p\<lparr>callbacks := onChange cb (callbacks p)\<rparr>, [])"
| "poller_step beh (Unsubscribe cb) p = (p\<lparr>callbacks := unsubscribe cb (callbacks p)\<rparr>, [])"

fun poller_run ::
    "(callback \<Rightarrow> behaviour) \<Rightarrow> poller_event list \<Rightarrow> poller \<Rightarrow> poller \<times> effect list list" where
  "poller_run beh [] p = (p, [])"
| "poller_run beh (ev # evs) p =
     (case poller_step beh ev p of
        (p1, effs) \<Rightarrow> (case poller_run beh evs p1 of (p2, rest) \<Rightarrow> (p2, effs # rest)))"



section \<open>The orchestrating client\<close>

text \<open>
  The fields of the client. A transport object is named by its workspace root; the field
  \<^verbatim>\<open>transport\<close> aliases the daemon or the snapshot transport. \<open>pollInterval\<close> is the option of
  that name. The daemon's answer to the ping and the outcome of \<^verbatim>\<open>jsonl.load()\<close> come from
  outside: \<open>pinged\<close> and \<open>loaded\<close>.
\<close>

record client =
  daemon :: "string option"
  jsonl :: "string option"
  transport :: "transport_ref option"
  poller :: "poller option"
  changeCallbacks :: "callback list"
  jsonlUnsubscribe :: "string option"
  connected :: bool
  workspaceRoot :: "string option"
  pollInterval :: "nat option"

definition BeadsClient :: "nat option \<Rightarrow> client" where
  "BeadsClient interval =
     \<lparr>daemon = None, jsonl = None, transport = None, poller = None, changeCallbacks = [],
      jsonlUnsubscribe = None, connected = False, workspaceRoot = None,
      pollInterval = interval\<rparr>"

text \<open>The one subscriber of the client's poller, \<^verbatim>\<open>() => this.notifyChange()\<close>.\<close>

definition notifyChange_closure :: callback where
  "notifyChange_closure = 0"

definition connect ::
    "string \<Rightarrow> error + json \<Rightarrow> bool \<Rightarrow> client \<Rightarrow> (error + unit) \<times> client \<times> effect list" where
  "connect root pinged loaded c =
     (let c0 = c\<lparr>workspaceRoot := Some root\<rparr>
      in case pinged of
           Inr pong \<Rightarrow>
             (case start (Some (case pollInterval c of None \<Rightarrow> 2000 | Some ms \<Rightarrow> ms))
                     ((ChangePoller (DaemonRef root))
                        \<lparr>callbacks := onChange notifyChange_closure []\<rparr>) of
                (p, effs) \<Rightarrow>
                  (Inr (),
                   c0\<lparr>daemon := Some root, transport := Some (DaemonRef root),
                      connected := True, poller := Some p\<rparr>,
                   Send (DaemonRef root) ''ping'' [] # effs))
         | Inl e \<Rightarrow>
             if \<not> loaded
             then (Inl (Error (''Could not connect to daemon or find JSONL file. '' @
                               ''Make sure the beads daemon is running or .beads/issues.jsonl exists.'')),
                   c0, [Send (DaemonRef root) ''ping'' [], Load root])
             else (Inr (),
                   c0\<lparr>jsonl := Some root, transport := Some (JsonlRef root),
                      connected := True, jsonlUnsubscribe := Some root\<rparr>,
                   [Send (DaemonRef root) ''ping'' [], Load root, StartWatching root]))"

definition disconnect :: "client \<Rightarrow> client \<times> effect list" where
  "disconnect c =
     (c\<lparr>poller := None, jsonlUnsubscribe := None, daemon := None, jsonl := None,
        transport := None, connected := False, changeCallbacks := []\<rparr>,
      (case poller c of None \<Rightarrow> [] | Some p \<Rightarrow> snd (stop p))
      @ (case jsonlUnsubscribe c of None \<Rightarrow> [] | Some r \<Rightarrow> [Unwatch r])
      @ (case daemon c of None \<Rightarrow> [] | Some r \<Rightarrow> [Close (DaemonRef r)])
      @ (case jsonl c of None \<Rightarrow> [] | Some r \<Rightarrow> [Close (JsonlRef r)]))"

text \<open>
  The private \<^verbatim>\<open>send\<close>; \<open>reply\<close> is what the transport's \<^verbatim>\<open>send\<close> settles with.
\<close>

definition send ::
    "string \<Rightarrow> (string \<times> json) list \<Rightarrow> error + json \<Rightarrow> client \<Rightarrow> (error + json) \<times> effect list" where
  "send operation args reply c =
     (case transport c of
        None \<Rightarrow> (Inl (Error ''Not connected. Call connect() first.''), [])
      | Some t \<Rightarrow> (reply, [Send t operation args]))"

text \<open>\<^verbatim>\<open>requireDaemon\<close> throws (\<open>Some\<close>) or returns (\<open>None\<close>).\<close>

definition requireDaemon :: "string \<Rightarrow> client \<Rightarrow> error option" where
  "requireDaemon operation c =
     (if daemon c = None
      then Some (Error (''Operation \"'' @ operation @ ''\" requires a daemon connection. ''
                        @ ''JSONL fallback is read-only.''))
      else None)"

text \<open>
  The write operations of the client (\<^verbatim>\<open>create\<close>, \<^verbatim>\<open>update\<close>, \<^verbatim>\<open>close\<close>,
  \<^verbatim>\<open>addDependency\<close>; the first three carry the prefix \<open>client_\<close> to tell them from the
  subprocess client's). Each gives its result, the client afterwards and the effects.
  An object literal with a spread, \<^verbatim>\<open>{ id, ...changes }\<close>, lets a later key replace an
  earlier one in place.
\<close>

definition spread :: "(string \<times> json) list \<Rightarrow> (string \<times> json) list \<Rightarrow> (string \<times> json) list" where
  "spread obj extra = foldl (\<lambda>acc (k, v). AList.update k v acc) obj extra"

definition client_create ::
    "(string \<times> json) list \<Rightarrow> error + json \<Rightarrow> client \<Rightarrow> (error + json) \<times> client \<times> effect list" where
  "client_create input reply c =
     (case requireDaemon ''create'' c of
        Some e \<Rightarrow> (Inl e, c, [])
      | None \<Rightarrow> (case send ''create'' input reply c of (r, effs) \<Rightarrow> (r, c, effs)))"

definition client_update ::
    "string \<Rightarrow> (string \<times> json) list \<Rightarrow> error + json \<Rightarrow> client
      \<Rightarrow> (error + json) \<times> client \<times> effect list" where
  "client_update ident changes reply c =
     (case requireDaemon ''update'' c of
        Some e \<Rightarrow> (Inl e, c, [])
      | None \<Rightarrow>
          (case send ''update'' (spread [(''id'', JStr ident)] changes) reply c of
             (r, effs) \<Rightarrow> (r, c, effs)))"

definition client_close ::
    "string \<Rightarrow> string option \<Rightarrow> error + json \<Rightarrow> client
      \<Rightarrow> (error + json) \<times> client \<times> effect list" where
  "client_close ident reason reply c =
     (case requireDaemon ''close'' c of
        Some e \<Rightarrow> (Inl e, c, [])
      | None \<Rightarrow>
          (let args = (case reason of
                         Some r \<Rightarrow> if r \<noteq> [] then [(''id'', JStr ident), (''reason'', JStr r)]
                                   else [(''id'', JStr ident)]
                       | None \<Rightarrow> [(''id'', JStr ident)])
           in case send ''close'' args reply c of (r, effs) \<Rightarrow> (r, c, effs)))"

definition addDependency ::
    "string \<Rightarrow> string \<Rightarrow> string \<Rightarrow> error + json \<Rightarrow> client
      \<Rightarrow> (error + unit) \<times> client \<times> effect list" where
  "addDependency fromId toId type reply c =
     (case requireDaemon ''dep_add'' c of
        Some e \<Rightarrow> (Inl e, c, [])
      | None \<Rightarrow>
          (case send ''dep_add''
                  [(''from_id'', JStr fromId), (''to_id'', JStr toId), (''dep_type'', JStr type)]
                  reply c of
             (r, effs) \<Rightarrow> (map_sum (\<lambda>e. e) (\<lambda>v. ()) r, c, effs)))"

text \<open>
  A change callback of the client has the client at hand: besides calling unsubscribe
  functions (which act on whatever array the field \<^verbatim>\<open>changeCallbacks\<close> holds at that
  moment) it may call \<^verbatim>\<open>disconnect()\<close>. \<^verbatim>\<open>disconnect\<close> has no \<^verbatim>\<open>await\<close>, so the call runs to
  its end on the spot. The behaviours considered: the unsubscriptions, then the
  disconnect if any, then a return or a throw.
\<close>

record client_behaviour = behaviour +
  disconnects :: bool

definition quiet_client :: client_behaviour where
  "quiet_client = \<lparr>unsubscribes = [], throws = False, disconnects = False\<rparr>"

definition list_behaviour :: "client_behaviour \<Rightarrow> behaviour" where
  "list_behaviour b = \<lparr>unsubscribes = unsubscribes b, throws = throws b\<rparr>"

definition call_disconnect :: "bool \<Rightarrow> client \<Rightarrow> client \<times> effect list" where
  "call_disconnect calls c = (if calls then disconnect c else (c, []))"

text \<open>
  \<^verbatim>\<open>notifyChange\<close>, which the poller's subscriber and the snapshot watcher's call:
  \<^verbatim>\<open>for (const cb of this.changeCallbacks) cb()\<close>. The loop iterates the array the field
  held when the loop began (\<open>arr\<close>). As long as no callback of the round has disconnected,
  that array is the field's, and an unsubscription edits it under the iterator; a
  \<^verbatim>\<open>disconnect\<close> puts a new, empty array in the field (\<open>detached\<close>), and the loop goes on
  over the old one, which later unsubscriptions no longer reach. The result tells
  whether a callback threw, the client afterwards, and the effects in order: the
  invocations and, after the invocation that made it, the effects of a disconnect.
\<close>

function notifyChange_from ::
    "(callback \<Rightarrow> client_behaviour) \<Rightarrow> nat \<Rightarrow> callback list \<Rightarrow> bool \<Rightarrow> client \<Rightarrow> effect list
      \<Rightarrow> bool \<times> client \<times> effect list" where
  "notifyChange_from beh i arr detached c effs =
     (if i < length arr then
        (let cb = arr ! i;
             arr' = (if detached then arr else fold unsubscribe (unsubscribes (beh cb)) arr);
             c1 = c\<lparr>changeCallbacks :=
                     (if detached
                      then fold unsubscribe (unsubscribes (beh cb)) (changeCallbacks c)
                      else arr')\<rparr>;
             left = call_disconnect (disconnects (beh cb)) c1;
             effs' = effs @ Invoke cb # snd left
         in if throws (beh cb) then (True, fst left, effs')
            else notifyChange_from beh (Suc i) arr' (detached \<or> disconnects (beh cb))
                   (fst left) effs')
      else (False, c, effs))"
  by pat_completeness auto
termination
proof (relation "measure (\<lambda>(beh, i, arr, detached, c, effs). length arr - i)")
  show "wf (measure (\<lambda>(beh, i, arr, detached, c, effs). length arr - i))" by simp
next
  fix beh :: "callback \<Rightarrow> client_behaviour" and i arr detached and c :: client
    and effs effs' :: "effect list" and cb arr' and c1 :: client
    and left :: "client \<times> effect list"
  assume i: "i < length arr"
    and arr': "arr' = (if detached then arr else fold unsubscribe (unsubscribes (beh cb)) arr)"
  have one: "length (unsubscribe u xs) \<le> length xs" for u xs
    by (cases "indexOf xs u") (auto simp: unsubscribe_def)
  have "length (fold unsubscribe us xs) \<le> length xs" for us xs
  proof (induction us arbitrary: xs)
    case Nil
    show ?case by simp
  next
    case (Cons u us)
    have "length (fold unsubscribe us (unsubscribe u xs)) \<le> length (unsubscribe u xs)"
      by (rule Cons.IH)
    also have "\<dots> \<le> length xs" by (rule one)
    finally show ?case by simp
  qed
  then have "length arr' \<le> length arr" using arr' by simp
  then show "((beh, Suc i, arr', detached \<or> disconnects (beh cb), fst left, effs'),
              (beh, i, arr, detached, c, effs))
      \<in> measure (\<lambda>(beh, i, arr, detached, c, effs). length arr - i)"
    using i by simp
qed

declare notifyChange_from.simps [simp del]

definition notifyChange ::
    "(callback \<Rightarrow> client_behaviour) \<Rightarrow> client \<Rightarrow> bool \<times> client \<times> effect list" where
  "notifyChange beh c = notifyChange_from beh 0 (changeCallbacks c) False c []"

text \<open>
  What can happen to a client, as far as its subscribers are concerned: its user (not a
  firing change callback) connects it, disconnects it, subscribes or unsubscribes a
  callback, or one of the pollers and watchers it ever set up calls \<^verbatim>\<open>notifyChange\<close> (a
  poll in flight may do so after a disconnect).
\<close>

datatype client_event =
    Connect string "error + json" bool
  | Disconnect
  | OnChange callback
  | Unsub callback
  | Notify

fun client_step ::
    "(callback \<Rightarrow> client_behaviour) \<Rightarrow> client_event \<Rightarrow> client \<Rightarrow> client \<times> effect list" where
  "client_step beh (Connect root pinged loaded) c = snd (connect root pinged loaded c)"
| "client_step beh Disconnect c = disconnect c"
| "client_step beh (OnChange cb) c = (c\<lparr>changeCallbacks := onChange cb (changeCallbacks c)\<rparr>, [])"
| "client_step beh (Unsub cb) c = (c\<lparr>changeCallbacks := unsubscribe cb (changeCallbacks c)\<rparr>, [])"
| "client_step beh Notify c = snd (notifyChange beh c)"

fun client_run ::
    "(callback \<Rightarrow> client_behaviour) \<Rightarrow> client_event list \<Rightarrow> client \<Rightarrow> client \<times> effect list" where
  "client_run beh [] c = (c, [])"
| "client_run beh (ev # evs) c =
     (case client_step beh ev c of
        (c1, effs) \<Rightarrow> (case client_run beh evs c1 of (c2, rest) \<Rightarrow> (c2, effs @ rest)))"

fun registers :: "client_event \<Rightarrow> callback set" where
  "registers (OnChange cb) = {cb}"
| "registers ev = {}"

text \<open>
  A client that connected through the daemon and to which 1 and 2 subscribed.
\<close>

definition subscribed :: client where
  "subscribed =
     (fst (snd (connect ''/w'' (Inr (JObj [(''message'', JStr ''pong'')])) False
            (BeadsClient None))))\<lparr>changeCallbacks := onChange 2 (onChange 1 [])\<rparr>"

text \<open>
  A client that connected through the daemon and then, without a disconnect, connected
  again while the daemon was down and the snapshot file present.
\<close>

definition reconnected :: client where
  "reconnected =
     fst (snd (connect ''/w'' (Inl (Error ''connect ECONNREFUSED'')) True
       (fst (snd (connect ''/w'' (Inr (JObj [(''message'', JStr ''pong'')])) False
          (BeadsClient None))))))"

section \<open>The snapshot transport\<close>














section \<open>Properties of the subprocess client's create\<close>

lemma read_id_truthy:
  assumes "truthy_js (read_id issue)"
  shows "\<exists>kvs v. issue = JObj kvs \<and> map_of kvs ''id'' = Some v \<and> truthy v"
proof (cases issue)
  case (JObj kvs)
  with assms show ?thesis by (cases "map_of kvs ''id''") simp_all
qed (use assms in simp_all)

lemma create_returns:
  assumes "create JSON_parse settled = Inr issue"
  shows "truthy_js (read_id issue)"
  using assms
  by (auto simp: create_def split: sum.splits option.splits if_splits)

text \<open>
  Claim C10. \<^verbatim>\<open>create\<close> accepts a single JSON object and a JSON array from \<^verbatim>\<open>bd\<close>, of
  which it takes the first element; it rejects with the error
  \<^verbatim>\<open>bd create did not return an issue\<close> whenever the parsed result is missing (an empty
  array, or null) or has no \<^verbatim>\<open>id\<close> field; and whatever it returns is an object with an
  \<^verbatim>\<open>id\<close> field (one that is truthy).
\<close>

theorem create_accepts_object_or_array:
  "(JSON_parse out = Inr (JObj kvs) \<and> truthy_js (map_of kvs ''id'')
      \<longrightarrow> create JSON_parse (Inr out) = Inr (JObj kvs))
   \<and> (JSON_parse out = Inr (JArr (JObj kvs # rest)) \<and> truthy_js (map_of kvs ''id'')
      \<longrightarrow> create JSON_parse (Inr out) = Inr (JObj kvs))
   \<and> (JSON_parse out = Inr parsed \<and>
        (first_or_self parsed = None \<or> first_or_self parsed = Some JNull
         \<or> (\<exists>i. first_or_self parsed = Some i \<and> read_id i = None))
      \<longrightarrow> create JSON_parse (Inr out) = Inl (Error ''bd create did not return an issue''))
   \<and> (create JSON_parse settled = Inr issue
      \<longrightarrow> (\<exists>kvs v. issue = JObj kvs \<and> map_of kvs ''id'' = Some v \<and> truthy v))"
proof (intro conjI impI)
  assume "JSON_parse out = Inr (JObj kvs) \<and> truthy_js (map_of kvs ''id'')"
  then show "create JSON_parse (Inr out) = Inr (JObj kvs)"
    by (simp add: create_def)
next
  assume "JSON_parse out = Inr (JArr (JObj kvs # rest)) \<and> truthy_js (map_of kvs ''id'')"
  then show "create JSON_parse (Inr out) = Inr (JObj kvs)"
    by (simp add: create_def)
next
  assume "JSON_parse out = Inr parsed \<and>
    (first_or_self parsed = None \<or> first_or_self parsed = Some JNull
     \<or> (\<exists>i. first_or_self parsed = Some i \<and> read_id i = None))"
  then show "create JSON_parse (Inr out) = Inl (Error ''bd create did not return an issue'')"
    by (auto simp: create_def no_issue_error_def)
next
  assume "create JSON_parse settled = Inr issue"
  then show "\<exists>kvs v. issue = JObj kvs \<and> map_of kvs ''id'' = Some v \<and> truthy v"
    by (intro read_id_truthy create_returns)
qed

text \<open>
  The four cases at the outputs the repository's tests feed: the sample issue alone, the
  sample issue in an array, and the empty object.
\<close>

theorem create_accepts_object_or_array_witness:
  "create (\<lambda>s. Inr (JObj [(''id'', JStr ''beads-001''), (''title'', JStr ''Test issue'')])) (Inr ''{...}'')
     = Inr (JObj [(''id'', JStr ''beads-001''), (''title'', JStr ''Test issue'')])
   \<and> create (\<lambda>s. Inr (JArr [JObj [(''id'', JStr ''beads-001'')]])) (Inr ''[{...}]'')
     = Inr (JObj [(''id'', JStr ''beads-001'')])
   \<and> create (\<lambda>s. Inr (JObj [])) (Inr ''{}'') = Inl (Error ''bd create did not return an issue'')
   \<and> (\<exists>kvs v. JObj [(''id'', JStr ''beads-001'')] = JObj kvs
         \<and> map_of kvs ''id'' = Some v \<and> truthy v)"
proof (intro conjI)
  show "create (\<lambda>s. Inr (JObj [(''id'', JStr ''beads-001''), (''title'', JStr ''Test issue'')])) (Inr ''{...}'')
     = Inr (JObj [(''id'', JStr ''beads-001''), (''title'', JStr ''Test issue'')])"
    using create_accepts_object_or_array
      [of "\<lambda>s. Inr (JObj [(''id'', JStr ''beads-001''), (''title'', JStr ''Test issue'')])" "''{...}''"
          "[(''id'', JStr ''beads-001''), (''title'', JStr ''Test issue'')]"]
    by simp
  show "create (\<lambda>s. Inr (JArr [JObj [(''id'', JStr ''beads-001'')]])) (Inr ''[{...}]'')
     = Inr (JObj [(''id'', JStr ''beads-001'')])"
    using create_accepts_object_or_array
      [of "\<lambda>s. Inr (JArr [JObj [(''id'', JStr ''beads-001'')]])" "''[{...}]''"
          "[(''id'', JStr ''beads-001'')]" "[]"]
    by simp
  show "create (\<lambda>s. Inr (JObj [])) (Inr ''{}'') = Inl (Error ''bd create did not return an issue'')"
    using create_accepts_object_or_array
      [of "\<lambda>s. Inr (JObj [])" "''{}''" _ _ "JObj []"]
    by simp
  have "create (\<lambda>s. Inr (JObj [(''id'', JStr ''beads-001'')])) (Inr ''{...}'')
     = Inr (JObj [(''id'', JStr ''beads-001'')])"
    by (simp add: create_def)
  then show "\<exists>kvs v. JObj [(''id'', JStr ''beads-001'')] = JObj kvs
         \<and> map_of kvs ''id'' = Some v \<and> truthy v"
    using create_accepts_object_or_array
      [of "\<lambda>s. Inr (JObj [(''id'', JStr ''beads-001'')])" _ _ _ _ "Inr ''{...}''"
          "JObj [(''id'', JStr ''beads-001'')]"]
    by blast
qed

section \<open>Properties of listWithParents\<close>

lemma enrich_blocked_by:
  assumes "details_of (issue_id issue) = Some details" and "dependencies details = Some ds"
  shows "blocked_by (enrich details_of issue) =
           (if filter (\<lambda>dep. dependency_type dep = Some ''blocks'' \<and> status dep \<noteq> ''closed'') ds = []
            then blocked_by issue
            else Some (map issue_id
                   (filter (\<lambda>dep. dependency_type dep = Some ''blocks'' \<and> status dep \<noteq> ''closed'') ds)))"
    and "blocked_by_count (enrich details_of issue) =
           (if filter (\<lambda>dep. dependency_type dep = Some ''blocks'' \<and> status dep \<noteq> ''closed'') ds = []
            then blocked_by_count issue
            else Some (length
                   (filter (\<lambda>dep. dependency_type dep = Some ''blocks'' \<and> status dep \<noteq> ''closed'') ds)))"
  using assms by (cases issue; simp add: enrich_def Let_def)+

text \<open>
  Claim C2, as amended. For every issue \<^verbatim>\<open>listWithParents\<close> processes whose details carry
  dependencies, the blockers are exactly the dependencies of type \<^verbatim>\<open>blocks\<close> whose status
  is not \<^verbatim>\<open>closed\<close>: when there is one, \<^verbatim>\<open>blocked_by_count\<close> is their number and
  \<^verbatim>\<open>blocked_by\<close> their ids; when there is none (the only blocking edges point at closed
  blockers), the two fields are left as the listed issue had them, so they are absent
  whenever the listed issue had none, and never an empty list or zero put there by
  \<^verbatim>\<open>listWithParents\<close>.
\<close>

theorem listWithParents_counts_open_blockers:
  assumes "listWithParents (Inr issues) bd_show = Inr result"
    and "bd_show (map issue_id issues) = Inr detailedIssues"
    and "n < length issues"
    and "detailsMap detailedIssues (issue_id (issues ! n)) = Some details"
    and "dependencies details = Some ds"
    and "blockers = filter (\<lambda>dep. dependency_type dep = Some ''blocks'' \<and> status dep \<noteq> ''closed'') ds"
  shows "(blockers \<noteq> [] \<longrightarrow>
            blocked_by_count (result ! n) = Some (length blockers)
            \<and> blocked_by (result ! n) = Some (map issue_id blockers))
         \<and> (blockers = [] \<longrightarrow>
            blocked_by_count (result ! n) = blocked_by_count (issues ! n)
            \<and> blocked_by (result ! n) = blocked_by (issues ! n))"
proof -
  have "issues \<noteq> []" using assms(3) by auto
  then have "result = map (enrich (detailsMap detailedIssues)) issues"
    using assms(1,2) by (simp add: listWithParents_def)
  then have "result ! n = enrich (detailsMap detailedIssues) (issues ! n)"
    using assms(3) by simp
  then show ?thesis
    using enrich_blocked_by [of "detailsMap detailedIssues" "issues ! n" details ds] assms(4,5,6)
    by simp
qed

text \<open>
  The repository's two tests: the sample issue with an open blocker, and with a closed one.
\<close>

theorem listWithParents_counts_open_blockers_witness:
  "blocked_by_count (enrich (detailsMap [detailed [sampleBlocker ''open'']]) sampleIssue) = Some 1
   \<and> blocked_by (enrich (detailsMap [detailed [sampleBlocker ''open'']]) sampleIssue)
       = Some [''beads-010'']
   \<and> blocked_by_count (enrich (detailsMap [detailed [sampleBlocker ''closed'']]) sampleIssue) = None
   \<and> blocked_by (enrich (detailsMap [detailed [sampleBlocker ''closed'']]) sampleIssue) = None"
proof -
  have run: "listWithParents (Inr [sampleIssue]) (\<lambda>ids. Inr [detailed deps])
               = Inr [enrich (detailsMap [detailed deps]) sampleIssue]" for deps
    by (simp add: listWithParents_def)
  have found: "detailsMap [detailed deps] (issue_id ([sampleIssue] ! 0)) = Some (detailed deps)"
    for deps
    by (simp add: detailsMap_def detailed_def sampleIssue_def)
  have deps: "dependencies (detailed deps) = Some deps" for deps
    by (simp add: detailed_def)
  have "blocked_by_count (enrich (detailsMap [detailed [sampleBlocker ''open'']]) sampleIssue) = Some 1
   \<and> blocked_by (enrich (detailsMap [detailed [sampleBlocker ''open'']]) sampleIssue)
       = Some [''beads-010'']"
    using listWithParents_counts_open_blockers
      [OF run refl _ found deps refl, of "[sampleBlocker ''open'']"]
    by (simp add: sampleBlocker_def)
  moreover
  have "blocked_by_count (enrich (detailsMap [detailed [sampleBlocker ''closed'']]) sampleIssue) = None
   \<and> blocked_by (enrich (detailsMap [detailed [sampleBlocker ''closed'']]) sampleIssue) = None"
    using listWithParents_counts_open_blockers
      [OF run refl _ found deps refl, of "[sampleBlocker ''closed'']"]
    by (simp add: sampleBlocker_def sampleIssue_def)
  ultimately show ?thesis by simp
qed

text \<open>
  Claim C2 as it was stated fails for a listed issue that already carries the two fields
  (as the type \<^verbatim>\<open>BdIssue\<close> allows): the copy \<^verbatim>\<open>{ ...issue }\<close> keeps them, although the
  only blocking edge points at a closed blocker.
\<close>

theorem listWithParents_keeps_listed_blocked_by:
  "listWithParents
     (Inr [BdIssue ''beads-001'' ''Test issue'' ''open'' 2 ''task'' None None
             (Some [''beads-099'']) (Some 1) None])
     (\<lambda>ids. Inr [detailed [sampleBlocker ''closed'']])
   = Inr [BdIssue ''beads-001'' ''Test issue'' ''open'' 2 ''task'' None
            (Some [sampleBlocker ''closed'']) (Some [''beads-099'']) (Some 1) None]"
  by (simp add: listWithParents_def detailsMap_def detailed_def enrich_def sampleBlocker_def)

section \<open>Properties of the notification loop\<close>

lemma unsubscribe_remove1: "unsubscribe cb cbs = remove1 cb cbs"
proof (induction cbs)
  case Nil
  show ?case by (simp add: unsubscribe_def)
next
  case (Cons y ys)
  then show ?case
    by (cases "indexOf ys cb") (auto simp: unsubscribe_def)
qed








section \<open>Properties of the change poller\<close>





text \<open>
  Claim C7. A poll cycle whose \<^verbatim>\<open>transport.send("stats", {})\<close> fails invokes no callback and
  leaves the poller as it was, baseline and timer included: whatever happens afterwards
  happens as if the cycle had not taken place, and while the timer is set the next tick
  sends the next \<^verbatim>\<open>stats\<close> request.
\<close>

theorem poll_failed_sample_skipped:
  "poll beh (Inl e) p = (p, [])
   \<and> poller_run beh (Settled (Inl e) # evs) p
       = (fst (poller_run beh evs p), [] # snd (poller_run beh evs p))
   \<and> (intervalId p \<noteq> None \<longrightarrow>
        snd (poller_step beh Tick (fst (poll beh (Inl e) p)))
          = [Send (poller_transport p) ''stats'' []])"
  by (simp add: poll_def poll_send_def split: prod.splits)

text \<open>A started poller whose first sample fails: the next tick polls again.\<close>

theorem poll_failed_sample_skipped_witness:
  "snd (poller_step (\<lambda>c. quiet) Tick
          (fst (poll (\<lambda>c. quiet) (Inl (Error ''connection refused''))
                  (fst (start (Some 1000) ((ChangePoller (DaemonRef ''/w''))\<lparr>callbacks := [1]\<rparr>))))))
     = [Send (DaemonRef ''/w'') ''stats'' []]"
  using poll_failed_sample_skipped
    [of "\<lambda>c. quiet" "Error ''connection refused''"
        "fst (start (Some 1000) ((ChangePoller (DaemonRef ''/w''))\<lparr>callbacks := [1]\<rparr>))" "[]"]
  by (simp add: start_def ChangePoller_def poll_def poll_send_def)

lemma poller_run_Cons:
  "fst (poller_run beh (ev # evs) p) = fst (poller_run beh evs (fst (poller_step beh ev p)))"
  "snd (poller_run beh (ev # evs) p)
     = snd (poller_step beh ev p) # snd (poller_run beh evs (fst (poller_step beh ev p)))"
  by (simp_all split: prod.splits)

lemma poll_intervalId: "intervalId (fst (poll beh s p)) = intervalId p"
  by (auto simp: poll_def split: sum.splits prod.splits)

lemma running_preserved:
  "Stop \<notin> set evs \<Longrightarrow> intervalId p \<noteq> None \<Longrightarrow> intervalId (fst (poller_run beh evs p)) \<noteq> None"
proof (induction evs arbitrary: p)
  case Nil
  then show ?case by simp
next
  case (Cons ev evs)
  have "intervalId (fst (poller_step beh ev p)) \<noteq> None"
    using Cons.prems poll_intervalId [of beh _ p]
    by (cases ev) (auto simp: start_def)
  then have "intervalId (fst (poller_run beh evs (fst (poller_step beh ev p)))) \<noteq> None"
    using Cons.prems by (intro Cons.IH) simp_all
  then show ?case by (simp only: poller_run_Cons not_False_eq_True)
qed

text \<open>
  Claim C8. After \<^verbatim>\<open>start\<close>, and whatever happens to the poller short of \<^verbatim>\<open>stop\<close>, a
  second \<^verbatim>\<open>start\<close> changes nothing and has no effect (no second timer, no extra sample).
  A \<^verbatim>\<open>start\<close> of a poller that is not running sets the timer, with 2000 ms when no
  interval is given, and sends the first \<^verbatim>\<open>stats\<close> request at once.
\<close>

theorem start_idempotent_while_running:
  "(Stop \<notin> set evs \<longrightarrow>
      start again (fst (poller_run beh evs (fst (start intervalMs p))))
        = (fst (poller_run beh evs (fst (start intervalMs p))), []))
   \<and> (intervalId p = None \<longrightarrow>
        start None p = (p\<lparr>intervalId := Some (Timeout 2000)\<rparr>,
                        [SetInterval 2000, Send (poller_transport p) ''stats'' []]))
   \<and> (intervalId p = None \<longrightarrow>
        start (Some ms) p = (p\<lparr>intervalId := Some (Timeout ms)\<rparr>,
                             [SetInterval ms, Send (poller_transport p) ''stats'' []]))"
proof (intro conjI impI)
  assume "Stop \<notin> set evs"
  moreover have "intervalId (fst (start intervalMs p)) \<noteq> None"
    by (simp add: start_def Let_def)
  ultimately have "intervalId (fst (poller_run beh evs (fst (start intervalMs p)))) \<noteq> None"
    by (rule running_preserved)
  then show "start again (fst (poller_run beh evs (fst (start intervalMs p))))
        = (fst (poller_run beh evs (fst (start intervalMs p))), [])"
    by (simp add: start_def)
qed (simp_all add: start_def poll_send_def)

text \<open>
  A poller started with the default interval, then subscribed to, ticked and answered; a
  second start with another interval; and the two starts from rest.
\<close>

theorem start_idempotent_while_running_witness:
  "start (Some 500)
     (fst (poller_run (\<lambda>c. quiet) [Subscribe 1, Tick, Settled (Inr (Some ''{\"total\":5}''))]
        (fst (start None (ChangePoller (DaemonRef ''/w''))))))
     = (\<lparr>poller_transport = DaemonRef ''/w'', intervalId = Some (Timeout 2000),
         callbacks = [1], lastHash = Some ''{\"total\":5}''\<rparr>, [])
   \<and> start None (ChangePoller (DaemonRef ''/w''))
     = (\<lparr>poller_transport = DaemonRef ''/w'', intervalId = Some (Timeout 2000),
         callbacks = [], lastHash = Some []\<rparr>,
        [SetInterval 2000, Send (DaemonRef ''/w'') ''stats'' []])
   \<and> start (Some 1000) (ChangePoller (DaemonRef ''/w''))
     = (\<lparr>poller_transport = DaemonRef ''/w'', intervalId = Some (Timeout 1000),
         callbacks = [], lastHash = Some []\<rparr>,
        [SetInterval 1000, Send (DaemonRef ''/w'') ''stats'' []])"
proof -
  have run: "fst (poller_run (\<lambda>c. quiet) [Subscribe 1, Tick, Settled (Inr (Some ''{\"total\":5}''))]
        (fst (start None (ChangePoller (DaemonRef ''/w'')))))
      = \<lparr>poller_transport = DaemonRef ''/w'', intervalId = Some (Timeout 2000),
         callbacks = [1], lastHash = Some ''{\"total\":5}''\<rparr>"
    by (simp add: start_def ChangePoller_def poll_def onChange_def poll_send_def)
  show ?thesis
    using start_idempotent_while_running
      [of "[Subscribe 1, Tick, Settled (Inr (Some ''{\"total\":5}''))]" "Some 500" "\<lambda>c. quiet"
          None "ChangePoller (DaemonRef ''/w'')" 1000]
    unfolding run by (simp add: ChangePoller_def)
qed

section \<open>Properties of the orchestrating client\<close>

lemma includes_str_middle: "includes_str (a @ n @ b) n"
proof (induction a)
  case Nil
  have "starts_with (n @ b) n" by (induction n) simp_all
  then show ?case by (cases "n @ b") auto
next
  case (Cons x a)
  then show ?case by simp
qed

lemma requireDaemon_message:
  assumes "requireDaemon operation c = Some e"
  shows "includes_str (message e) ''requires a daemon connection''"
proof -
  have "message e = (''Operation \"'' @ operation @ ''\" '') @ ''requires a daemon connection''
                      @ ''. JSONL fallback is read-only.''"
    using assms by (auto simp: requireDaemon_def split: if_splits)
  then show ?thesis by (simp only: includes_str_middle)
qed

text \<open>
  The gate of the four write operations as the code has it: while the field \<^verbatim>\<open>daemon\<close> is
  null the call rejects before any \<^verbatim>\<open>send\<close>, and the client is unchanged.
\<close>

lemma writes_require_daemon_field:
  assumes "daemon c = None"
  shows "\<exists>e. client_create input reply c = (Inl e, c, [])
             \<and> includes_str (message e) ''requires a daemon connection''"
    and "\<exists>e. client_update ident changes reply c = (Inl e, c, [])
             \<and> includes_str (message e) ''requires a daemon connection''"
    and "\<exists>e. client_close ident reason reply c = (Inl e, c, [])
             \<and> includes_str (message e) ''requires a daemon connection''"
    and "\<exists>e. addDependency fromId toId type reply c = (Inl e, c, [])
             \<and> includes_str (message e) ''requires a daemon connection''"
proof -
  have r: "\<exists>e. requireDaemon operation c = Some e
              \<and> includes_str (message e) ''requires a daemon connection''" for operation
    using assms requireDaemon_message [of operation c] by (simp add: requireDaemon_def)
  show "\<exists>e. client_create input reply c = (Inl e, c, [])
             \<and> includes_str (message e) ''requires a daemon connection''"
    using r [of "''create''"] by (auto simp: client_create_def)
  show "\<exists>e. client_update ident changes reply c = (Inl e, c, [])
             \<and> includes_str (message e) ''requires a daemon connection''"
    using r [of "''update''"] by (auto simp: client_update_def)
  show "\<exists>e. client_close ident reason reply c = (Inl e, c, [])
             \<and> includes_str (message e) ''requires a daemon connection''"
    using r [of "''close''"] by (auto simp: client_close_def)
  show "\<exists>e. addDependency fromId toId type reply c = (Inl e, c, [])
             \<and> includes_str (message e) ''requires a daemon connection''"
    using r [of "''dep_add''"] by (auto simp: addDependency_def)
qed

text \<open>
  Claim C4 at the client \<open>reconnected\<close>: its active transport is the snapshot transport,
  yet the stale field \<^verbatim>\<open>daemon\<close> lets \<^verbatim>\<open>requireDaemon\<close> pass, so \<^verbatim>\<open>create\<close> calls
  \<^verbatim>\<open>send\<close> on the snapshot transport and settles with whatever that transport answers,
  not with the error "requires a daemon connection".
\<close>

theorem write_after_fallback_reconnect:
  "transport reconnected = Some (JsonlRef ''/w'')
   \<and> daemon reconnected = Some ''/w''
   \<and> client_create [(''title'', JStr ''New'')] reply reconnected
       = (reply, reconnected,
          [Send (JsonlRef ''/w'') ''create'' [(''title'', JStr ''New'')]])"
  by (simp add: reconnected_def connect_def BeadsClient_def start_def ChangePoller_def
      client_create_def requireDaemon_def send_def Let_def)

text \<open>
  Claim C5, as amended. Every \<^verbatim>\<open>connect\<close> whose daemon probe and snapshot load both fail
  rejects with one fixed message, which names both attempted paths (the daemon and
  \<^verbatim>\<open>.beads/issues.jsonl\<close>) and is the same whatever the daemon's failure reason was; the
  client only records the workspace root.
\<close>

theorem connect_fails_with_fixed_message:
  "connect root (Inl e) False c
     = (Inl (Error (''Could not connect to daemon or find JSONL file. '' @
                    ''Make sure the beads daemon is running or .beads/issues.jsonl exists.'')),
        c\<lparr>workspaceRoot := Some root\<rparr>,
        [Send (DaemonRef root) ''ping'' [], Load root])
   \<and> includes_str (''Could not connect to daemon or find JSONL file. '' @
                    ''Make sure the beads daemon is running or .beads/issues.jsonl exists.'')
        ''daemon''
   \<and> includes_str (''Could not connect to daemon or find JSONL file. '' @
                    ''Make sure the beads daemon is running or .beads/issues.jsonl exists.'')
        ''.beads/issues.jsonl''"
  by (simp add: connect_def)

text \<open>
  Claim C5 as it was stated fails: the daemon's failure reason is not part of the message
  (the \<^verbatim>\<open>catch\<close> of \<^verbatim>\<open>connect\<close> binds no error).
\<close>

theorem connect_swallows_daemon_reason:
  "fst (connect ''/w'' (Inl (Error ''connect ECONNREFUSED /w/.beads/bd.sock'')) False
         (BeadsClient None))
     = Inl (Error (''Could not connect to daemon or find JSONL file. '' @
                    ''Make sure the beads daemon is running or .beads/issues.jsonl exists.''))
   \<and> \<not> includes_str (''Could not connect to daemon or find JSONL file. '' @
                    ''Make sure the beads daemon is running or .beads/issues.jsonl exists.'')
          ''ECONNREFUSED''"
  by (simp add: connect_def)

lemma set_unsubscribe: "set (unsubscribe cb cbs) \<subseteq> set cbs"
  by (cases "indexOf cbs cb") (auto simp: unsubscribe_def dest: in_set_takeD in_set_dropD)

lemma set_fold_unsubscribe: "set (fold unsubscribe us cbs) \<subseteq> set cbs"
proof (induction us arbitrary: cbs)
  case Nil
  show ?case by simp
next
  case (Cons u us)
  have "set (fold unsubscribe us (unsubscribe u cbs)) \<subseteq> set (unsubscribe u cbs)"
    by (rule Cons.IH)
  also have "\<dots> \<subseteq> set cbs" by (rule set_unsubscribe)
  finally show ?case by simp
qed

lemma disconnect_effects: "Invoke cb \<notin> set (snd (disconnect c))"
  by (auto simp: disconnect_def stop_def split: option.splits)

lemma call_disconnect_sets:
  "set (changeCallbacks (fst (call_disconnect calls c))) \<subseteq> set (changeCallbacks c)"
  "Invoke cb \<notin> set (snd (call_disconnect calls c))"
  using disconnect_effects [of cb c] by (auto simp: call_disconnect_def disconnect_def)

lemma notifyChange_from_sets:
  "notifyChange_from beh i arr detached c effs = (thrown, c', effs') \<Longrightarrow>
     set (changeCallbacks c') \<subseteq> set (changeCallbacks c) \<union> set arr
     \<and> (\<forall>x. Invoke x \<in> set effs' \<longrightarrow> Invoke x \<in> set effs \<or> x \<in> set arr)"
proof (induction beh i arr detached c effs rule: notifyChange_from.induct)
  case (1 beh i arr detached c effs)
  show ?case
  proof (cases "i < length arr")
    case False
    then show ?thesis using "1.prems" by (simp add: notifyChange_from.simps)
  next
    case True
    define cb where "cb = arr ! i"
    define arr1 where
      "arr1 = (if detached then arr else fold unsubscribe (unsubscribes (beh cb)) arr)"
    define c1 where
      "c1 = c\<lparr>changeCallbacks :=
                (if detached then fold unsubscribe (unsubscribes (beh cb)) (changeCallbacks c)
                 else arr1)\<rparr>"
    define left where "left = call_disconnect (disconnects (beh cb)) c1"
    define effs1 where "effs1 = effs @ Invoke cb # snd left"
    have cb: "cb \<in> set arr" using True by (simp add: cb_def)
    have arr1: "set arr1 \<subseteq> set arr"
      using set_fold_unsubscribe [of "unsubscribes (beh cb)" arr] by (simp add: arr1_def)
    have c1: "set (changeCallbacks c1) \<subseteq> set (changeCallbacks c) \<union> set arr"
      using set_fold_unsubscribe [of "unsubscribes (beh cb)" "changeCallbacks c"] arr1
      by (auto simp: c1_def)
    have left: "set (changeCallbacks (fst left)) \<subseteq> set (changeCallbacks c) \<union> set arr"
      using call_disconnect_sets(1) [of "disconnects (beh cb)" c1] c1 by (auto simp: left_def)
    have effs1: "Invoke x \<in> set effs1 \<Longrightarrow> Invoke x \<in> set effs \<or> x \<in> set arr" for x
      using call_disconnect_sets(2) [of x "disconnects (beh cb)" c1] cb
      by (auto simp: effs1_def left_def)
    show ?thesis
    proof (cases "throws (beh cb)")
      case True
      then have "c' = fst left \<and> effs' = effs1"
        using "1.prems" \<open>i < length arr\<close>
        by (subst (asm) notifyChange_from.simps)
           (auto simp: cb_def arr1_def c1_def left_def effs1_def Let_def)
      then show ?thesis using left effs1 by blast
    next
      case False
      have run: "notifyChange_from beh (Suc i) arr1 (detached \<or> disconnects (beh cb))
                   (fst left) effs1 = (thrown, c', effs')"
        using "1.prems" \<open>i < length arr\<close> False
        by (subst (asm) notifyChange_from.simps)
           (cases detached; simp add: cb_def arr1_def c1_def left_def effs1_def Let_def)
      have "set (changeCallbacks c') \<subseteq> set (changeCallbacks (fst left)) \<union> set arr1
            \<and> (\<forall>x. Invoke x \<in> set effs' \<longrightarrow> Invoke x \<in> set effs1 \<or> x \<in> set arr1)"
        using "1.IH" [OF \<open>i < length arr\<close> cb_def arr1_def c1_def left_def effs1_def False run] .
      then show ?thesis using left arr1 effs1 by blast
    qed
  qed
qed

lemma notifyChange_sets:
  "set (changeCallbacks (fst (snd (notifyChange beh c)))) \<subseteq> set (changeCallbacks c)"
  "Invoke cb \<in> set (snd (snd (notifyChange beh c))) \<Longrightarrow> cb \<in> set (changeCallbacks c)"
proof -
  obtain thrown c' effs' where
    n: "notifyChange_from beh 0 (changeCallbacks c) False c [] = (thrown, c', effs')"
    by (cases "notifyChange_from beh 0 (changeCallbacks c) False c []") auto
  from notifyChange_from_sets [OF n]
  have s: "set (changeCallbacks c') \<subseteq> set (changeCallbacks c)"
    "\<forall>x. Invoke x \<in> set effs' \<longrightarrow> x \<in> set (changeCallbacks c)"
    by auto
  show "set (changeCallbacks (fst (snd (notifyChange beh c)))) \<subseteq> set (changeCallbacks c)"
    using n s by (simp add: notifyChange_def)
  show "Invoke cb \<in> set (snd (snd (notifyChange beh c))) \<Longrightarrow> cb \<in> set (changeCallbacks c)"
    using n s by (simp add: notifyChange_def)
qed

text \<open>
  While no callback calls \<^verbatim>\<open>disconnect\<close>, a round of the client is a round of the loop
  \<open>notify\<close> on its list of callbacks.
\<close>

lemma notifyChange_from_as_notify_from:
  assumes "\<forall>x. \<not> disconnects (beh x)"
  shows "notifyChange_from beh i arr False (c\<lparr>changeCallbacks := arr\<rparr>) (map Invoke invoked)
           = (case notify_from (\<lambda>x. list_behaviour (beh x)) i arr invoked of
                (thrown, cbs', invoked') \<Rightarrow>
                  (thrown, c\<lparr>changeCallbacks := cbs'\<rparr>, map Invoke invoked'))"
proof (induction "length arr - i" arbitrary: i arr invoked rule: less_induct)
  case less
  show ?case
  proof (cases "i < length arr")
    case False
    then show ?thesis
      by (subst notifyChange_from.simps, subst notify_from.simps) simp
  next
    case True
    define cb where "cb = arr ! i"
    define arr1 where "arr1 = fold unsubscribe (unsubscribes (beh cb)) arr"
    have len: "length arr1 \<le> length arr"
    proof -
      have one: "length (unsubscribe u xs) \<le> length xs" for u xs
        by (simp add: unsubscribe_remove1 length_remove1)
      have "length (fold unsubscribe us xs) \<le> length xs" for us xs
      proof (induction us arbitrary: xs)
        case Nil
        show ?case by simp
      next
        case (Cons u us)
        have "length (fold unsubscribe us (unsubscribe u xs)) \<le> length (unsubscribe u xs)"
          by (rule Cons.IH)
        also have "\<dots> \<le> length xs" by (rule one)
        finally show ?case by simp
      qed
      then show ?thesis by (simp add: arr1_def)
    qed
    have nd: "\<not> disconnects (beh cb)" using assms by simp
    show ?thesis
    proof (cases "throws (beh cb)")
      case True
      then show ?thesis
        using \<open>i < length arr\<close> nd
        by (subst notifyChange_from.simps, subst notify_from.simps)
           (simp add: cb_def list_behaviour_def call_disconnect_def Let_def)
    next
      case False
      have "length arr1 - Suc i < length arr - i" using len True by simp
      from less [OF this, of "invoked @ [cb]"]
      have ih: "notifyChange_from beh (Suc i) arr1 False (c\<lparr>changeCallbacks := arr1\<rparr>)
                  (map Invoke (invoked @ [cb]))
           = (case notify_from (\<lambda>x. list_behaviour (beh x)) (Suc i) arr1 (invoked @ [cb]) of
                (thrown, cbs', invoked') \<Rightarrow>
                  (thrown, c\<lparr>changeCallbacks := cbs'\<rparr>, map Invoke invoked'))" .
      show ?thesis
        using \<open>i < length arr\<close> nd False ih
        by (subst notifyChange_from.simps, subst notify_from.simps)
           (simp add: cb_def arr1_def list_behaviour_def call_disconnect_def Let_def)
    qed
  qed
qed

lemma notifyChange_as_notify:
  assumes "\<forall>x. \<not> disconnects (beh x)"
  shows "notifyChange beh c
           = (case notify (\<lambda>x. list_behaviour (beh x)) (changeCallbacks c) of
                (thrown, cbs', invoked) \<Rightarrow>
                  (thrown, c\<lparr>changeCallbacks := cbs'\<rparr>, map Invoke invoked))"
  using notifyChange_from_as_notify_from [OF assms, of 0 "changeCallbacks c" c "[]"]
  by (simp add: notifyChange_def notify_def)

lemma connect_callbacks:
  "changeCallbacks (fst (snd (connect root pinged loaded c))) = changeCallbacks c"
  "Invoke cb \<notin> set (snd (snd (connect root pinged loaded c)))"
  by (auto simp: connect_def start_def Let_def poll_send_def split: sum.splits prod.splits)

lemma client_step_invariant:
  assumes "set (changeCallbacks c) \<subseteq> R" and "registers ev \<subseteq> R"
  shows "set (changeCallbacks (fst (client_step beh ev c))) \<subseteq> R"
    and "Invoke cb \<in> set (snd (client_step beh ev c)) \<Longrightarrow> cb \<in> R"
proof -
  show "set (changeCallbacks (fst (client_step beh ev c))) \<subseteq> R"
  proof (cases ev)
    case (Connect root pinged loaded)
    then show ?thesis using assms connect_callbacks(1) by simp
  next
    case Disconnect
    then show ?thesis by (simp add: disconnect_def)
  next
    case (OnChange x)
    then show ?thesis using assms by (simp add: onChange_def)
  next
    case (Unsub x)
    then show ?thesis using assms set_unsubscribe [of x "changeCallbacks c"] by auto
  next
    case Notify
    then show ?thesis using assms notifyChange_sets(1) [of beh c] by auto
  qed
  show "Invoke cb \<in> set (snd (client_step beh ev c)) \<Longrightarrow> cb \<in> R"
  proof (cases ev)
    case (Connect root pinged loaded)
    then show "Invoke cb \<in> set (snd (client_step beh ev c)) \<Longrightarrow> cb \<in> R"
      using connect_callbacks(2) by simp
  next
    case Disconnect
    then show "Invoke cb \<in> set (snd (client_step beh ev c)) \<Longrightarrow> cb \<in> R"
      using disconnect_effects by simp
  next
    case Notify
    then show "Invoke cb \<in> set (snd (client_step beh ev c)) \<Longrightarrow> cb \<in> R"
      using assms notifyChange_sets(2) [of cb beh c] by auto
  qed simp_all
qed

lemma client_run_invokes_registered:
  "set (changeCallbacks c) \<subseteq> R \<Longrightarrow> (\<Union>ev\<in>set evs. registers ev) \<subseteq> R \<Longrightarrow>
     Invoke cb \<in> set (snd (client_run beh evs c)) \<Longrightarrow> cb \<in> R"
proof (induction evs arbitrary: c)
  case Nil
  then show ?case by simp
next
  case (Cons ev evs)
  have reg: "registers ev \<subseteq> R" using Cons.prems(2) by simp
  have inv: "set (changeCallbacks (fst (client_step beh ev c))) \<subseteq> R"
    using client_step_invariant(1) [OF Cons.prems(1) reg] .
  from Cons.prems(3)
  consider "Invoke cb \<in> set (snd (client_step beh ev c))"
    | "Invoke cb \<in> set (snd (client_run beh evs (fst (client_step beh ev c))))"
    by (auto split: prod.splits)
  then show ?case
  proof cases
    case 1
    then show ?thesis using client_step_invariant(2) [OF Cons.prems(1) reg] by simp
  next
    case 2
    then show ?thesis using Cons.IH [OF inv] Cons.prems(2) by simp
  qed
qed

text \<open>
  Claim C9, as amended. \<^verbatim>\<open>disconnect\<close> stops the poller when it runs, calls the watcher's
  unsubscribe function, closes the transports it holds, in this order, and leaves the
  client without poller, transports or connection and with an empty list of change
  callbacks. So after a \<^verbatim>\<open>disconnect\<close> that its user called (not a firing change
  callback), whatever happens to the client afterwards (notifications of pollers and
  watchers still in flight, new connections, subscriptions of other callbacks, callbacks
  that unsubscribe, disconnect or throw while firing), a callback is invoked only if
  it has been registered again after the disconnect.
\<close>

theorem disconnect_releases_and_forgets:
  "fst (disconnect c)
     = c\<lparr>poller := None, jsonlUnsubscribe := None, daemon := None, jsonl := None,
         transport := None, connected := False, changeCallbacks := []\<rparr>
   \<and> snd (disconnect c)
     = (case poller c of
          None \<Rightarrow> []
        | Some p \<Rightarrow> (case intervalId p of None \<Rightarrow> [] | Some t \<Rightarrow> [ClearInterval t]))
       @ (case jsonlUnsubscribe c of None \<Rightarrow> [] | Some r \<Rightarrow> [Unwatch r])
       @ (case daemon c of None \<Rightarrow> [] | Some r \<Rightarrow> [Close (DaemonRef r)])
       @ (case jsonl c of None \<Rightarrow> [] | Some r \<Rightarrow> [Close (JsonlRef r)])
   \<and> (cb \<notin> (\<Union>ev\<in>set evs. registers ev) \<longrightarrow>
        Invoke cb \<notin> set (snd (client_run beh evs (fst (disconnect c)))))"
proof (intro conjI impI)
  show "fst (disconnect c)
     = c\<lparr>poller := None, jsonlUnsubscribe := None, daemon := None, jsonl := None,
         transport := None, connected := False, changeCallbacks := []\<rparr>"
    by (simp add: disconnect_def)
  show "snd (disconnect c)
     = (case poller c of
          None \<Rightarrow> []
        | Some p \<Rightarrow> (case intervalId p of None \<Rightarrow> [] | Some t \<Rightarrow> [ClearInterval t]))
       @ (case jsonlUnsubscribe c of None \<Rightarrow> [] | Some r \<Rightarrow> [Unwatch r])
       @ (case daemon c of None \<Rightarrow> [] | Some r \<Rightarrow> [Close (DaemonRef r)])
       @ (case jsonl c of None \<Rightarrow> [] | Some r \<Rightarrow> [Close (JsonlRef r)])"
    by (simp add: disconnect_def stop_def split: option.splits)
  assume "cb \<notin> (\<Union>ev\<in>set evs. registers ev)"
  moreover have "Invoke cb \<in> set (snd (client_run beh evs (fst (disconnect c))))
      \<Longrightarrow> cb \<in> (\<Union>ev\<in>set evs. registers ev)"
    by (rule client_run_invokes_registered [of "fst (disconnect c)"])
       (simp_all add: disconnect_def)
  ultimately show "Invoke cb \<notin> set (snd (client_run beh evs (fst (disconnect c))))"
    by blast
qed

text \<open>
  The client \<open>subscribed\<close> is disconnected by its user; a notification still in flight
  arrives, the client reconnects through the daemon, 2 subscribes again, and a
  notification arrives in which 2 disconnects: 1 is never invoked.
\<close>

theorem disconnect_releases_and_forgets_witness:
  "disconnect subscribed
     = (\<lparr>daemon = None, jsonl = None, transport = None, poller = None, changeCallbacks = [],
         jsonlUnsubscribe = None, connected = False, workspaceRoot = Some ''/w'',
         pollInterval = None\<rparr>,
        [ClearInterval (Timeout 2000), Close (DaemonRef ''/w'')])
   \<and> Invoke 1 \<notin> set (snd (client_run
        (\<lambda>x. if x = 2 then \<lparr>unsubscribes = [], throws = False, disconnects = True\<rparr>
              else quiet_client)
        [Notify, Connect ''/w'' (Inr JNull) False, OnChange 2, Notify]
        (fst (disconnect subscribed))))
   \<and> snd (client_run
        (\<lambda>x. if x = 2 then \<lparr>unsubscribes = [], throws = False, disconnects = True\<rparr>
              else quiet_client)
        [Notify, Connect ''/w'' (Inr JNull) False, OnChange 2, Notify]
        (fst (disconnect subscribed)))
     = [Send (DaemonRef ''/w'') ''ping'' [], SetInterval 2000,
        Send (DaemonRef ''/w'') ''stats'' [], Invoke 2,
        ClearInterval (Timeout 2000), Close (DaemonRef ''/w'')]"
proof -
  let ?beh = "\<lambda>x. if x = 2 then \<lparr>unsubscribes = [], throws = False, disconnects = True\<rparr>
                   else quiet_client"
  let ?evs = "[Notify, Connect ''/w'' (Inr JNull) False, OnChange 2, Notify]"
  have sub: "subscribed
      = \<lparr>daemon = Some ''/w'', jsonl = None, transport = Some (DaemonRef ''/w''),
         poller = Some \<lparr>poller_transport = DaemonRef ''/w'', intervalId = Some (Timeout 2000),
                         callbacks = [notifyChange_closure], lastHash = Some []\<rparr>,
         changeCallbacks = [1, 2], jsonlUnsubscribe = None, connected = True,
         workspaceRoot = Some ''/w'', pollInterval = None\<rparr>"
    by (simp add: subscribed_def connect_def BeadsClient_def start_def ChangePoller_def
        onChange_def Let_def)
  have d: "disconnect subscribed
     = (\<lparr>daemon = None, jsonl = None, transport = None, poller = None, changeCallbacks = [],
         jsonlUnsubscribe = None, connected = False, workspaceRoot = Some ''/w'',
         pollInterval = None\<rparr>,
        [ClearInterval (Timeout 2000), Close (DaemonRef ''/w'')])"
    using disconnect_releases_and_forgets [of subscribed 1 "[]" ?beh]
    unfolding sub by (simp add: prod_eq_iff)
  have "(1::nat) \<notin> (\<Union>ev\<in>set ?evs. registers ev)" by simp
  with disconnect_releases_and_forgets [of subscribed 1 ?evs ?beh]
  have never: "Invoke 1 \<notin> set (snd (client_run ?beh ?evs (fst (disconnect subscribed))))"
    by blast
  have run: "snd (client_run ?beh ?evs (fst (disconnect subscribed)))
     = [Send (DaemonRef ''/w'') ''ping'' [], SetInterval 2000,
        Send (DaemonRef ''/w'') ''stats'' [], Invoke 2,
        ClearInterval (Timeout 2000), Close (DaemonRef ''/w'')]"
    unfolding d
    by (simp add: disconnect_def stop_def notifyChange_def notifyChange_from.simps
        call_disconnect_def connect_def start_def ChangePoller_def poll_send_def onChange_def
        quiet_client_def Let_def)
  show ?thesis using d never run by simp
qed

text \<open>
  Claim C9 as it was stated fails when a firing change callback calls \<^verbatim>\<open>disconnect\<close>: of the
  subscribers 1 and 2 of the client \<open>subscribed\<close>, 1 disconnects while firing; the loop
  goes on over the array it began with, and 2, registered before the disconnect and not
  again, is invoked after the poller has been stopped and the transport closed.
\<close>

theorem notifyChange_goes_on_after_disconnect:
  "snd (client_run
          (\<lambda>x. if x = 1 then \<lparr>unsubscribes = [], throws = False, disconnects = True\<rparr>
                else quiet_client)
          [Notify] subscribed)
     = [Invoke 1, ClearInterval (Timeout 2000), Close (DaemonRef ''/w''), Invoke 2]
   \<and> changeCallbacks (fst (client_run
          (\<lambda>x. if x = 1 then \<lparr>unsubscribes = [], throws = False, disconnects = True\<rparr>
                else quiet_client)
          [Notify] subscribed)) = []"
  by (simp add: subscribed_def connect_def BeadsClient_def start_def ChangePoller_def
      onChange_def Let_def notifyChange_def notifyChange_from.simps call_disconnect_def
      disconnect_def stop_def quiet_client_def)

section \<open>Properties of the snapshot transport\<close>








end
